theory Spec2Isabelle
  imports Main
begin

section \<open>Falling sand: the grid, one tick, painting and reset\<close>

text \<open>
  A shallow embedding of \<^verbatim>\<open>src/main.py\<close> (class \<^verbatim>\<open>FallingSand\<close>). The grid is a Python list
  of rows, each a list of integers (0 is empty, 1 is sand). Everything the methods read
  from outside the object is an explicit input of the tick: the state of the primary mouse
  button, the pointer position, and the outcomes of the two random draws.
\<close>

subsection \<open>Python list indexing\<close>

datatype error = IndexError | ZeroDivisionError

text \<open>
  \<^verbatim>\<open>xs[i]\<close> in Python accepts \<open>-len xs \<le> i < len xs\<close> (a negative index counts from the end)
  and raises IndexError otherwise: that is \<open>Wrapping\<close>. Under \<open>Strict\<close> the same access fails
  for every index outside \<open>[0, len xs - 1]\<close>; running the methods under \<open>Strict\<close> observes
  whether any access left that range.
\<close>

datatype indexing = Wrapping | Strict

definition resolve :: "indexing \<Rightarrow> nat \<Rightarrow> int \<Rightarrow> error + nat" where
  "resolve m n i =
     (if 0 \<le> i \<and> i < int n then Inr (nat i)
      else if m = Wrapping \<and> - int n \<le> i \<and> i < 0 then Inr (nat (int n + i))
      else Inl IndexError)"

definition getitem :: "indexing \<Rightarrow> 'a list \<Rightarrow> int \<Rightarrow> error + 'a" where
  "getitem m xs i =
     (case resolve m (length xs) i of Inl e \<Rightarrow> Inl e | Inr k \<Rightarrow> Inr (xs ! k))"

definition setitem :: "indexing \<Rightarrow> 'a list \<Rightarrow> int \<Rightarrow> 'a \<Rightarrow> error + 'a list" where
  "setitem m xs i v =
     (case resolve m (length xs) i of Inl e \<Rightarrow> Inl e | Inr k \<Rightarrow> Inr (xs[k := v]))"

type_synonym grid = "int list list"

text \<open>\<^verbatim>\<open>g[r][c]\<close> and \<^verbatim>\<open>g[r][c] = v\<close>: the row is fetched first, then indexed.\<close>

definition grid_get :: "indexing \<Rightarrow> grid \<Rightarrow> int \<Rightarrow> int \<Rightarrow> error + int" where
  "grid_get m g r c =
     (case getitem m g r of Inl e \<Rightarrow> Inl e | Inr line \<Rightarrow> getitem m line c)"

definition grid_set :: "indexing \<Rightarrow> grid \<Rightarrow> int \<Rightarrow> int \<Rightarrow> int \<Rightarrow> error + grid" where
  "grid_set m g r c v =
     (case resolve m (length g) r of
        Inl e \<Rightarrow> Inl e
      | Inr k \<Rightarrow>
          (case setitem m (g ! k) c v of
             Inl e \<Rightarrow> Inl e
           | Inr line \<Rightarrow> Inr (g[k := line])))"

text \<open>A \<^verbatim>\<open>for\<close> loop over a list whose body may raise: the first error ends the loop.\<close>

fun foldE :: "('a \<Rightarrow> 's \<Rightarrow> error + 's) \<Rightarrow> 'a list \<Rightarrow> 's \<Rightarrow> error + 's" where
  "foldE f [] s = Inr s"
| "foldE f (x # xs) s = (case f x s of Inl e \<Rightarrow> Inl e | Inr s' \<Rightarrow> foldE f xs s')"

subsection \<open>The simulator object and the inputs of one tick\<close>

text \<open>
  The fields of \<^verbatim>\<open>FallingSand\<close> that the simulation reads or writes. \<open>SIZE\<close> is a count
  (50 in \<^verbatim>\<open>__init__\<close>); \<open>CELL_SIZE\<close> is \<^verbatim>\<open>min(WIDTH // SIZE, HEIGHT // SIZE)\<close> there (16).
\<close>

record FallingSand =
  SIZE :: nat
  RADIUS :: int
  CELL_SIZE :: int
  running :: bool
  grid :: grid

text \<open>\<^verbatim>\<open>choice((-1, 1))\<close> returns one of the two elements of the tuple.\<close>

datatype pick = PickMinus | PickPlus

fun dir_value :: "pick \<Rightarrow> int" where
  "dir_value PickMinus = - 1"
| "dir_value PickPlus = 1"

text \<open>
  What one call of \<^verbatim>\<open>update_grid\<close> reads from outside:
  \<^item> \<open>pressed\<close>: \<^verbatim>\<open>pygame.mouse.get_pressed()[0]\<close>;
  \<^item> \<open>mouse_x\<close>, \<open>mouse_y\<close>: \<^verbatim>\<open>pygame.mouse.get_pos()\<close>;
  \<^item> \<open>coin row column\<close>: whether \<^verbatim>\<open>round(uniform(0, 1), 2) < 0.75\<close> held at the iteration
    \<open>(row, column)\<close> of the brush loops, which draw once per iteration;
  \<^item> \<open>lateral row col\<close>: the value \<^verbatim>\<open>choice((-1, 1))\<close> returned for the cell \<open>(row, col)\<close>.
    The cell loop draws at most once per cell, and which cells draw depends on the current
    grid only, so an assignment of draws to cells is the same as a sequence of draws.
\<close>

record tick_input =
  pressed :: bool
  mouse_x :: int
  mouse_y :: int
  coin :: "nat \<Rightarrow> nat \<Rightarrow> bool"
  lateral :: "nat \<Rightarrow> nat \<Rightarrow> pick"

subsection \<open>The methods\<close>

definition generate_grid :: "FallingSand \<Rightarrow> grid" where
  "generate_grid s = replicate (SIZE s) (replicate (SIZE s) 0)"

definition within_rows :: "FallingSand \<Rightarrow> int \<Rightarrow> bool" where
  "within_rows s row \<longleftrightarrow> 0 \<le> row \<and> row \<le> int (SIZE s) - 1"

definition within_cols :: "FallingSand \<Rightarrow> int \<Rightarrow> bool" where
  "within_cols s cols \<longleftrightarrow> 0 \<le> cols \<and> cols \<le> int (SIZE s) - 1"

text \<open>
  The body of the two brush loops of \<^verbatim>\<open>handle_drag\<close> at the iteration \<open>(row, column)\<close>.
  The source writes \<^verbatim>\<open>next_grid[c][r]\<close>: the candidate built from the pointer's x coordinate
  indexes the inner list.
\<close>

definition paint_candidate ::
  "indexing \<Rightarrow> FallingSand \<Rightarrow> tick_input \<Rightarrow> int \<Rightarrow> int \<Rightarrow> nat \<times> nat \<Rightarrow> grid \<Rightarrow> error + grid" where
  "paint_candidate m s inp mxr myc rc next_grid =
     (case rc of (row, column) \<Rightarrow>
        if coin inp row column then
          (let r = mxr + int row; c = myc + int column in
           if within_cols s c \<and> within_rows s r then grid_set m next_grid c r 1
           else Inr next_grid)
        else Inr next_grid)"

definition handle_drag :: "indexing \<Rightarrow> FallingSand \<Rightarrow> tick_input \<Rightarrow> grid \<Rightarrow> error + grid" where
  "handle_drag m s inp next_grid =
     (if CELL_SIZE s = 0 then Inl ZeroDivisionError
      else
        (let mxr = mouse_x inp div CELL_SIZE s;
             myc = mouse_y inp div CELL_SIZE s;
             extent = RADIUS s div 2
         in foldE (paint_candidate m s inp mxr myc)
              (List.product [0..<nat extent] [0..<nat extent]) next_grid))"

text \<open>\<^verbatim>\<open>self.grid[r][c] == 0\<close>, as a test that may raise.\<close>

definition reads_empty :: "indexing \<Rightarrow> grid \<Rightarrow> int \<Rightarrow> int \<Rightarrow> error + bool" where
  "reads_empty m g r c = (case grid_get m g r c of Inl e \<Rightarrow> Inl e | Inr v \<Rightarrow> Inr (v = 0))"

text \<open>
  The body of the cell loops of \<^verbatim>\<open>update_grid\<close> at \<open>(row, col)\<close>. Python's \<^verbatim>\<open>and\<close> evaluates
  its right operand only when the left one holds, so each grid read sits under its range
  checks.
\<close>

definition update_cell ::
  "indexing \<Rightarrow> FallingSand \<Rightarrow> tick_input \<Rightarrow> nat \<times> nat \<Rightarrow> grid \<Rightarrow> error + grid" where
  "update_cell m s inp rc next_grid =
     (case rc of (row, col) \<Rightarrow>
        (case grid_get m (grid s) (int row) (int col) of
           Inl e \<Rightarrow> Inl e
         | Inr cell \<Rightarrow>
             (let below = int row + 1 in
              if cell \<noteq> 1 then Inr next_grid
              else
                (case (if within_rows s below then reads_empty m (grid s) below (int col)
                       else Inr False) of
                   Inl e \<Rightarrow> Inl e
                 | Inr True \<Rightarrow> grid_set m next_grid below (int col) 1
                 | Inr False \<Rightarrow>
                     (let dir = dir_value (lateral inp row col);
                          new_col = int col + dir
                      in
                        (case (if within_cols s new_col \<and> within_rows s below
                               then reads_empty m (grid s) below new_col
                               else Inr False) of
                           Inl e \<Rightarrow> Inl e
                         | Inr True \<Rightarrow> grid_set m next_grid below new_col 1
                         | Inr False \<Rightarrow> grid_set m next_grid (int row) (int col) cell))))))"

text \<open>
  \<^verbatim>\<open>update_grid\<close>. The constant \<^verbatim>\<open>pygame.MOUSEBUTTONDOWN\<close> is a non-zero event code, so the
  outer test of the source always holds and only the button state decides.
\<close>

definition update_grid :: "indexing \<Rightarrow> FallingSand \<Rightarrow> tick_input \<Rightarrow> error + FallingSand" where
  "update_grid m s inp =
     (case (if pressed inp then handle_drag m s inp (generate_grid s)
            else Inr (generate_grid s)) of
        Inl e \<Rightarrow> Inl e
      | Inr painted \<Rightarrow>
          (case foldE (update_cell m s inp)
                  (List.product [0..<SIZE s] [0..<SIZE s]) painted of
             Inl e \<Rightarrow> Inl e
           | Inr next_grid \<Rightarrow> Inr (s\<lparr>grid := next_grid\<rparr>)))"

text \<open>Successive ticks, one input each, as the catch-up loop of \<^verbatim>\<open>run\<close> makes them.\<close>

fun ticks :: "indexing \<Rightarrow> FallingSand \<Rightarrow> tick_input list \<Rightarrow> error + FallingSand" where
  "ticks m s [] = Inr s"
| "ticks m s (inp # inps) =
     (case update_grid m s inp of Inl e \<Rightarrow> Inl e | Inr s' \<Rightarrow> ticks m s' inps)"

subsection \<open>Events\<close>

text \<open>
  The events \<^verbatim>\<open>handle_events\<close> tells apart. The sound cue played on reset is outside the
  object's state and is not modelled.
\<close>

datatype key = K_r | K_c | K_q | K_other

datatype event = QUIT | KEYDOWN key | OTHER

fun handle_event :: "FallingSand \<Rightarrow> event \<Rightarrow> FallingSand" where
  "handle_event s QUIT = s\<lparr>running := False\<rparr>"
| "handle_event s (KEYDOWN k) =
     (if k = K_r \<or> k = K_c then s\<lparr>grid := generate_grid s\<rparr>
      else if k = K_q then s\<lparr>running := False\<rparr>
      else s)"
| "handle_event s OTHER = s"

definition handle_events :: "FallingSand \<Rightarrow> event list \<Rightarrow> FallingSand" where
  "handle_events s evs = foldl handle_event s evs"

subsection \<open>Notions the properties are stated with\<close>

text \<open>The grid is \<open>n\<close> rows of \<open>n\<close> cells.\<close>

definition square :: "nat \<Rightarrow> grid \<Rightarrow> bool" where
  "square n g \<longleftrightarrow> length g = n \<and> list_all (\<lambda>line. length line = n) g"

text \<open>Every cell is 0 or 1.\<close>

definition binary :: "grid \<Rightarrow> bool" where
  "binary g \<longleftrightarrow> list_all (list_all (\<lambda>v. v = 0 \<or> v = 1)) g"

text \<open>The number of sand cells.\<close>

definition sand_count :: "grid \<Rightarrow> nat" where
  "sand_count g = length (filter (\<lambda>v. v = 1) (concat g))"

text \<open>
  The cell \<^verbatim>\<open>update_grid\<close> writes for a sand cell at \<open>(row, col)\<close>: the three branches of the
  loop body, on a grid whose reads succeed. Lemma \<open>update_cell_in_range\<close> below proves that
  on a \<open>SIZE \<times> SIZE\<close> grid the loop body writes exactly this cell.
\<close>

definition destination :: "FallingSand \<Rightarrow> tick_input \<Rightarrow> nat \<Rightarrow> nat \<Rightarrow> nat \<times> nat" where
  "destination s inp row col =
     (let below = int row + 1 in
      if within_rows s below \<and> grid s ! (row + 1) ! col = 0 then (row + 1, col)
      else
        (let new_col = int col + dir_value (lateral inp row col) in
         if within_cols s new_col \<and> within_rows s below
            \<and> grid s ! (row + 1) ! nat new_col = 0
         then (row + 1, nat new_col)
         else (row, col)))"

text \<open>
  The cells \<^verbatim>\<open>handle_drag\<close> paints: a brush iteration whose draw succeeded and whose candidate
  passed both range checks, at the position it indexes.
\<close>

definition painted_at :: "FallingSand \<Rightarrow> tick_input \<Rightarrow> nat \<Rightarrow> nat \<Rightarrow> bool" where
  "painted_at s inp i j \<longleftrightarrow>
     (\<exists>row \<in> {0..<nat (RADIUS s div 2)}. \<exists>column \<in> {0..<nat (RADIUS s div 2)}.
        coin inp row column
        \<and> within_rows s (mouse_x inp div CELL_SIZE s + int row)
        \<and> within_cols s (mouse_y inp div CELL_SIZE s + int column)
        \<and> int j = mouse_x inp div CELL_SIZE s + int row
        \<and> int i = mouse_y inp div CELL_SIZE s + int column)"

text \<open>
  The grid with the cell \<open>(r, c)\<close> set to \<open>v\<close>: what \<^verbatim>\<open>g[r][c] = v\<close> leaves when both indices
  are in range.
\<close>

definition put :: "grid \<Rightarrow> nat \<Rightarrow> nat \<Rightarrow> int \<Rightarrow> grid" where
  "put g r c v = g[r := (g ! r)[c := v]]"

text \<open>
  The cell loop's body when no access fails: a sand cell is written at its destination.
\<close>

definition settle_cell :: "FallingSand \<Rightarrow> tick_input \<Rightarrow> nat \<times> nat \<Rightarrow> grid \<Rightarrow> grid" where
  "settle_cell s inp rc next_grid =
     (if grid s ! fst rc ! snd rc = 1
      then put next_grid (fst (destination s inp (fst rc) (snd rc)))
             (snd (destination s inp (fst rc) (snd rc))) 1
      else next_grid)"

text \<open>
  The brush loop's body when no access fails.
\<close>

definition paint_cell :: "FallingSand \<Rightarrow> tick_input \<Rightarrow> nat \<times> nat \<Rightarrow> grid \<Rightarrow> grid" where
  "paint_cell s inp rc next_grid =
     (let r = mouse_x inp div CELL_SIZE s + int (fst rc);
          c = mouse_y inp div CELL_SIZE s + int (snd rc)
      in if coin inp (fst rc) (snd rc) \<and> within_cols s c \<and> within_rows s r
         then put next_grid (nat c) (nat r) 1 else next_grid)"

text \<open>
  The grid one tick commits when no access fails: a fresh grid, painted if the button is
  held, then every sand cell of the current grid written at its destination.
\<close>

definition tick_grid :: "FallingSand \<Rightarrow> tick_input \<Rightarrow> grid" where
  "tick_grid s inp =
     fold (settle_cell s inp) (List.product [0..<SIZE s] [0..<SIZE s])
       (if pressed inp
        then fold (paint_cell s inp)
               (List.product [0..<nat (RADIUS s div 2)] [0..<nat (RADIUS s div 2)])
               (generate_grid s)
        else generate_grid s)"

text \<open>The positions of the sand cells of an \<open>n \<times> n\<close> grid.\<close>

definition sand_cells :: "nat \<Rightarrow> grid \<Rightarrow> (nat \<times> nat) set" where
  "sand_cells n g = {(i, j). i < n \<and> j < n \<and> g ! i ! j = 1}"

subsection \<open>The catch-up loop of the scheduler\<close>











section \<open>The tick without failing accesses\<close>

lemma generate_grid_square: "square (SIZE s) (generate_grid s)"
  by (simp add: square_def generate_grid_def list_all_length)

lemma generate_grid_binary: "binary (generate_grid s)"
  by (simp add: binary_def generate_grid_def list_all_length)

lemma sand_count_generate_grid: "sand_count (generate_grid s) = 0"
  by (simp add: sand_count_def generate_grid_def filter_empty_conv)

lemma resolve_in_range: "k < n \<Longrightarrow> resolve m n (int k) = Inr k"
  by (simp add: resolve_def)

lemma resolve_Strict: "resolve Strict n i = Inr k \<Longrightarrow> 0 \<le> i \<and> i < int n \<and> k = nat i"
  by (auto simp: resolve_def split: if_splits)

lemma square_nth: "square n g \<Longrightarrow> r < n \<Longrightarrow> length (g ! r) = n"
  by (simp add: square_def list_all_length)

lemma square_length: "square n g \<Longrightarrow> length g = n"
  by (simp add: square_def)

lemma grid_get_in_range:
  "square n g \<Longrightarrow> r < n \<Longrightarrow> c < n \<Longrightarrow> grid_get m g (int r) (int c) = Inr (g ! r ! c)"
  by (simp add: grid_get_def getitem_def resolve_in_range square_length square_nth)

lemma grid_set_in_range:
  "square n g \<Longrightarrow> r < n \<Longrightarrow> c < n \<Longrightarrow> grid_set m g (int r) (int c) v = Inr (put g r c v)"
  by (simp add: grid_set_def setitem_def resolve_in_range square_length square_nth put_def)

lemma square_put: "square n g \<Longrightarrow> square n (put g r c v)"
proof -
  assume sq: "square n g"
  have "length (put g r c v ! k) = n" if "k < n" for k
    using that sq by (cases "k = r") (simp_all add: put_def square_length square_nth)
  then show ?thesis
    using sq by (simp add: square_def list_all_length put_def)
qed

lemma nth_put:
  "square n g \<Longrightarrow> i < n \<Longrightarrow> j < n \<Longrightarrow>
   put g r c v ! i ! j = (if i = r \<and> j = c then v else g ! i ! j)"
  by (cases "i = r"; cases "j = c") (simp_all add: put_def square_length square_nth)

lemma reads_empty_in_range:
  "square n g \<Longrightarrow> r < n \<Longrightarrow> c < n \<Longrightarrow> reads_empty m g (int r) (int c) = Inr (g ! r ! c = 0)"
  by (simp add: reads_empty_def grid_get_in_range)

lemma destination_in_range:
  "row < SIZE s \<Longrightarrow> col < SIZE s \<Longrightarrow>
   fst (destination s inp row col) < SIZE s \<and> snd (destination s inp row col) < SIZE s"
  by (auto simp: destination_def Let_def within_rows_def within_cols_def)

lemma update_cell_in_range:
  assumes sq: "square (SIZE s) (grid s)" and nx: "square (SIZE s) next_grid"
    and r: "row < SIZE s" and c: "col < SIZE s"
  shows "update_cell m s inp (row, col) next_grid =
           Inr (if grid s ! row ! col = 1
                then put next_grid (fst (destination s inp row col))
                       (snd (destination s inp row col)) 1
                else next_grid)"
proof (cases "grid s ! row ! col = 1")
  case False
  then show ?thesis
    using sq r c by (simp add: update_cell_def grid_get_in_range)
next
  case sand: True
  show ?thesis
  proof (cases "within_rows s (int row + 1)")
    case False
    then show ?thesis
      using sand sq nx r c
      by (simp add: update_cell_def grid_get_in_range destination_def Let_def
          grid_set_in_range)
  next
    case wr: True
    then have b: "row + 1 < SIZE s" by (simp add: within_rows_def)
    have rd: "reads_empty m (grid s) (int row + 1) (int col) = Inr (grid s ! (row + 1) ! col = 0)"
      using reads_empty_in_range [OF sq b c, of m] by (simp add: add.commute)
    show ?thesis
    proof (cases "grid s ! (row + 1) ! col = 0")
      case True
      then show ?thesis
        using sand sq nx r c wr rd b grid_set_in_range [OF nx b c, of m 1]
        by (simp add: update_cell_def grid_get_in_range destination_def Let_def add.commute)
    next
      case blocked: False
      let ?nc = "int col + dir_value (lateral inp row col)"
      show ?thesis
      proof (cases "within_cols s ?nc")
        case False
        then show ?thesis
          using sand sq nx r c wr rd blocked
          by (simp add: update_cell_def grid_get_in_range destination_def Let_def
              grid_set_in_range)
      next
        case wc: True
        then have k: "nat ?nc < SIZE s" and ik: "int (nat ?nc) = ?nc"
          by (auto simp: within_cols_def)
        have rd2: "reads_empty m (grid s) (int row + 1) ?nc
                   = Inr (grid s ! (row + 1) ! nat ?nc = 0)"
          using reads_empty_in_range [OF sq b k, of m] unfolding ik by (simp add: add.commute)
        have st2: "grid_set m next_grid (int row + 1) ?nc 1 = Inr (put next_grid (row + 1) (nat ?nc) 1)"
          using grid_set_in_range [OF nx b k, of m 1] unfolding ik by (simp add: add.commute)
        show ?thesis
          using sand sq nx r c wr rd blocked wc rd2 st2
          by (simp add: update_cell_def grid_get_in_range destination_def Let_def
              grid_set_in_range)
      qed
    qed
  qed
qed

lemma foldE_pure:
  assumes "\<And>x t. x \<in> set xs \<Longrightarrow> P t \<Longrightarrow> f x t = Inr (g x t) \<and> P (g x t)" and "P t"
  shows "foldE f xs t = Inr (fold g xs t) \<and> P (fold g xs t)"
  using assms by (induction xs arbitrary: t) simp_all

lemma update_cell_settle:
  assumes "square (SIZE s) (grid s)" "square (SIZE s) next_grid" "fst rc < SIZE s" "snd rc < SIZE s"
  shows "update_cell m s inp rc next_grid = Inr (settle_cell s inp rc next_grid)"
  using update_cell_in_range [OF assms(1,2,3,4), of m inp]
  by (simp add: settle_cell_def)

lemma square_settle_cell: "square n next_grid \<Longrightarrow> square n (settle_cell s inp rc next_grid)"
  by (simp add: settle_cell_def square_put)

lemma paint_candidate_paint:
  assumes nx: "square (SIZE s) next_grid"
  shows "paint_candidate m s inp (mouse_x inp div CELL_SIZE s) (mouse_y inp div CELL_SIZE s)
           rc next_grid = Inr (paint_cell s inp rc next_grid)"
proof -
  let ?r = "mouse_x inp div CELL_SIZE s + int (fst rc)"
  let ?c = "mouse_y inp div CELL_SIZE s + int (snd rc)"
  show ?thesis
  proof (cases "coin inp (fst rc) (snd rc) \<and> within_cols s ?c \<and> within_rows s ?r")
    case False
    then show ?thesis
      by (auto simp: paint_candidate_def paint_cell_def Let_def split: prod.splits)
  next
    case True
    then have c: "nat ?c < SIZE s" "int (nat ?c) = ?c" and r: "nat ?r < SIZE s" "int (nat ?r) = ?r"
      by (auto simp: within_cols_def within_rows_def)
    have "grid_set m next_grid ?c ?r 1 = Inr (put next_grid (nat ?c) (nat ?r) 1)"
      using grid_set_in_range [OF nx c(1) r(1), of m 1] unfolding c(2) r(2) .
    then show ?thesis
      using True by (auto simp: paint_candidate_def paint_cell_def Let_def split: prod.splits)
  qed
qed

lemma square_paint_cell: "square n next_grid \<Longrightarrow> square n (paint_cell s inp rc next_grid)"
  by (simp add: paint_cell_def Let_def square_put)

lemma foldE_update_cell:
  assumes sq: "square (SIZE s) (grid s)" and nx: "square (SIZE s) next_grid"
    and cells: "\<And>rc. rc \<in> set cells \<Longrightarrow> fst rc < SIZE s \<and> snd rc < SIZE s"
  shows "foldE (update_cell m s inp) cells next_grid = Inr (fold (settle_cell s inp) cells next_grid)
         \<and> square (SIZE s) (fold (settle_cell s inp) cells next_grid)"
  by (rule foldE_pure [where P = "square (SIZE s)"])
     (simp_all add: update_cell_settle sq cells square_settle_cell nx)

lemma foldE_paint_candidate:
  assumes nx: "square (SIZE s) next_grid"
  shows "foldE (paint_candidate m s inp (mouse_x inp div CELL_SIZE s) (mouse_y inp div CELL_SIZE s))
           cands next_grid = Inr (fold (paint_cell s inp) cands next_grid)
         \<and> square (SIZE s) (fold (paint_cell s inp) cands next_grid)"
  by (rule foldE_pure [where P = "square (SIZE s)"])
     (simp_all add: paint_candidate_paint square_paint_cell nx)

lemma nth_fold_settle:
  assumes nx: "square n next_grid" and i: "i < n" and j: "j < n"
  shows "fold (settle_cell s inp) cells next_grid ! i ! j =
           (if \<exists>rc \<in> set cells. grid s ! fst rc ! snd rc = 1
                  \<and> destination s inp (fst rc) (snd rc) = (i, j)
            then 1 else next_grid ! i ! j)"
  using nx
proof (induction cells arbitrary: next_grid)
  case Nil
  then show ?case by simp
next
  case (Cons rc cells)
  have sq1: "square n (settle_cell s inp rc next_grid)"
    using Cons.prems by (rule square_settle_cell)
  have one: "settle_cell s inp rc next_grid ! i ! j =
               (if grid s ! fst rc ! snd rc = 1 \<and> destination s inp (fst rc) (snd rc) = (i, j)
                then 1 else next_grid ! i ! j)"
    using nth_put [OF Cons.prems i j]
    by (auto simp: settle_cell_def prod_eq_iff)
  show ?case
    using Cons.IH [OF sq1] one by auto
qed

lemma nth_fold_paint:
  assumes nx: "square n next_grid" and i: "i < n" and j: "j < n"
  shows "fold (paint_cell s inp) cands next_grid ! i ! j =
           (if \<exists>rc \<in> set cands. coin inp (fst rc) (snd rc)
                  \<and> within_rows s (mouse_x inp div CELL_SIZE s + int (fst rc))
                  \<and> within_cols s (mouse_y inp div CELL_SIZE s + int (snd rc))
                  \<and> int j = mouse_x inp div CELL_SIZE s + int (fst rc)
                  \<and> int i = mouse_y inp div CELL_SIZE s + int (snd rc)
            then 1 else next_grid ! i ! j)"
  using nx
proof (induction cands arbitrary: next_grid)
  case Nil
  then show ?case by simp
next
  case (Cons rc cands)
  have sq1: "square n (paint_cell s inp rc next_grid)"
    using Cons.prems by (rule square_paint_cell)
  have one: "paint_cell s inp rc next_grid ! i ! j =
               (if coin inp (fst rc) (snd rc)
                  \<and> within_rows s (mouse_x inp div CELL_SIZE s + int (fst rc))
                  \<and> within_cols s (mouse_y inp div CELL_SIZE s + int (snd rc))
                  \<and> int j = mouse_x inp div CELL_SIZE s + int (fst rc)
                  \<and> int i = mouse_y inp div CELL_SIZE s + int (snd rc)
                then 1 else next_grid ! i ! j)"
    using nth_put [OF Cons.prems i j]
    by (auto simp: paint_cell_def Let_def within_rows_def within_cols_def)
  show ?case
    using Cons.IH [OF sq1] one by auto
qed

lemma handle_drag_paint:
  assumes nx: "square (SIZE s) next_grid" and cs: "CELL_SIZE s \<noteq> 0"
  shows "handle_drag m s inp next_grid =
           Inr (fold (paint_cell s inp)
                  (List.product [0..<nat (RADIUS s div 2)] [0..<nat (RADIUS s div 2)]) next_grid)"
  using foldE_paint_candidate [OF nx, of m inp] cs
  by (simp add: handle_drag_def Let_def)

lemma square_fold_paint:
  "square n next_grid \<Longrightarrow> square n (fold (paint_cell s inp) cands next_grid)"
  by (induction cands arbitrary: next_grid) (simp_all add: square_paint_cell)

lemma square_fold_settle:
  "square n next_grid \<Longrightarrow> square n (fold (settle_cell s inp) cells next_grid)"
  by (induction cells arbitrary: next_grid) (simp_all add: square_settle_cell)

lemma square_tick_grid: "square (SIZE s) (tick_grid s inp)"
  by (simp add: tick_grid_def square_fold_settle square_fold_paint generate_grid_square)

lemma update_grid_tick_grid:
  assumes sq: "square (SIZE s) (grid s)" and cs: "pressed inp \<longrightarrow> CELL_SIZE s \<noteq> 0"
  shows "update_grid m s inp = Inr (s\<lparr>grid := tick_grid s inp\<rparr>)"
proof -
  let ?start = "if pressed inp
        then fold (paint_cell s inp)
               (List.product [0..<nat (RADIUS s div 2)] [0..<nat (RADIUS s div 2)])
               (generate_grid s)
        else generate_grid s"
  have p: "(if pressed inp then handle_drag m s inp (generate_grid s)
            else Inr (generate_grid s)) = Inr ?start"
    using cs by (simp add: handle_drag_paint generate_grid_square)
  have sqp: "square (SIZE s) ?start"
    by (simp add: square_fold_paint generate_grid_square)
  have "foldE (update_cell m s inp) (List.product [0..<SIZE s] [0..<SIZE s]) ?start
          = Inr (tick_grid s inp)"
    using foldE_update_cell [OF sq sqp, of "List.product [0..<SIZE s] [0..<SIZE s]" m inp]
    by (auto simp: tick_grid_def)
  then show ?thesis
    unfolding update_grid_def p by simp
qed

lemma nth_generate_grid: "i < SIZE s \<Longrightarrow> j < SIZE s \<Longrightarrow> generate_grid s ! i ! j = 0"
  by (simp add: generate_grid_def)

lemma nth_tick_grid:
  assumes i: "i < SIZE s" and j: "j < SIZE s"
  shows "tick_grid s inp ! i ! j =
           (if (pressed inp \<and> painted_at s inp i j)
               \<or> (\<exists>r<SIZE s. \<exists>c<SIZE s. grid s ! r ! c = 1 \<and> destination s inp r c = (i, j))
            then 1 else 0)"
proof -
  let ?start = "if pressed inp
        then fold (paint_cell s inp)
               (List.product [0..<nat (RADIUS s div 2)] [0..<nat (RADIUS s div 2)])
               (generate_grid s)
        else generate_grid s"
  have sqp: "square (SIZE s) ?start"
    by (simp add: square_fold_paint generate_grid_square)
  have st: "?start ! i ! j = (if pressed inp \<and> painted_at s inp i j then 1 else 0)"
    using nth_fold_paint [OF generate_grid_square i j, where inp = inp
        and cands = "List.product [0..<nat (RADIUS s div 2)] [0..<nat (RADIUS s div 2)]"]
    by (auto simp: painted_at_def nth_generate_grid i j)
  have ex: "(\<exists>rc \<in> set (List.product [0..<SIZE s] [0..<SIZE s]).
               grid s ! fst rc ! snd rc = 1 \<and> destination s inp (fst rc) (snd rc) = (i, j))
            \<longleftrightarrow> (\<exists>r<SIZE s. \<exists>c<SIZE s. grid s ! r ! c = 1 \<and> destination s inp r c = (i, j))"
    by (simp add: Bex_def)
  show ?thesis
    unfolding tick_grid_def nth_fold_settle [OF sqp i j] ex st by auto
qed

lemma grid_eqI:
  assumes "square n g" "square n h" "\<And>i j. i < n \<Longrightarrow> j < n \<Longrightarrow> g ! i ! j = h ! i ! j"
  shows "g = h"
proof (rule nth_equalityI)
  show "length g = length h" using assms(1,2) by (simp add: square_length)
next
  fix i assume "i < length g"
  then have i: "i < n" using assms(1) by (simp add: square_length)
  show "g ! i = h ! i"
    by (rule nth_equalityI) (simp_all add: square_nth [OF assms(1) i] square_nth [OF assms(2) i] assms(3) i)
qed

section \<open>Reset\<close>

lemma handle_event_SIZE: "SIZE (handle_event s e) = SIZE s"
  by (cases e) auto

lemma foldl_handle_event_SIZE: "SIZE (foldl handle_event s evs) = SIZE s"
  by (induction evs arbitrary: s) (simp_all add: handle_event_SIZE)

lemma handle_event_fresh:
  "grid s = generate_grid s \<Longrightarrow> grid (handle_event s e) = generate_grid (handle_event s e)"
  by (cases e) (auto simp: generate_grid_def)

lemma foldl_handle_event_fresh:
  "grid s = generate_grid s \<Longrightarrow>
   grid (foldl handle_event s evs) = generate_grid (foldl handle_event s evs)"
  by (induction evs arbitrary: s) (simp_all add: handle_event_fresh)

text \<open>
  Claim C7. Whatever the grid was, handling a reset key (r or c) replaces it with the grid
  \<^verbatim>\<open>generate_grid\<close> builds: \<open>SIZE\<close> rows of \<open>SIZE\<close> cells, every one of them 0, so the sand
  count is zero. The same holds at the end of a whole batch of events whenever the batch
  contains a reset key, since no other event touches the grid.
\<close>

theorem reset_yields_empty_grid:
  "k \<in> {K_r, K_c} \<longrightarrow>
     grid (handle_event s (KEYDOWN k)) = replicate (SIZE s) (replicate (SIZE s) 0)
     \<and> square (SIZE s) (grid (handle_event s (KEYDOWN k)))
     \<and> sand_count (grid (handle_event s (KEYDOWN k))) = 0
     \<and> grid (handle_events s (before @ KEYDOWN k # after))
         = replicate (SIZE s) (replicate (SIZE s) 0)"
proof
  assume k: "k \<in> {K_r, K_c}"
  let ?s1 = "foldl handle_event s before"
  let ?s2 = "handle_event ?s1 (KEYDOWN k)"
  have one: "grid (handle_event s (KEYDOWN k)) = generate_grid s"
    using k by auto
  have "grid ?s2 = generate_grid ?s2"
    using k by (auto simp: generate_grid_def)
  then have "grid (foldl handle_event ?s2 after) = generate_grid (foldl handle_event ?s2 after)"
    by (rule foldl_handle_event_fresh)
  moreover have "SIZE (foldl handle_event ?s2 after) = SIZE s"
    by (simp add: foldl_handle_event_SIZE handle_event_SIZE)
  ultimately have batch:
    "grid (handle_events s (before @ KEYDOWN k # after)) = generate_grid s"
    by (simp add: handle_events_def generate_grid_def)
  show "grid (handle_event s (KEYDOWN k)) = replicate (SIZE s) (replicate (SIZE s) 0)
     \<and> square (SIZE s) (grid (handle_event s (KEYDOWN k)))
     \<and> sand_count (grid (handle_event s (KEYDOWN k))) = 0
     \<and> grid (handle_events s (before @ KEYDOWN k # after))
         = replicate (SIZE s) (replicate (SIZE s) 0)"
    using one batch generate_grid_square [of s] sand_count_generate_grid [of s]
    by (simp add: generate_grid_def)
qed

theorem reset_yields_empty_grid_witness:
  "K_r \<in> {K_r, K_c}
   \<and> grid (handle_event \<lparr>SIZE = 2, RADIUS = 5, CELL_SIZE = 16, running = True,
                            grid = [[0, 1], [1, 1]]\<rparr> (KEYDOWN K_r)) = [[0, 0], [0, 0]]
   \<and> grid (handle_events \<lparr>SIZE = 2, RADIUS = 5, CELL_SIZE = 16, running = True,
                            grid = [[0, 1], [1, 1]]\<rparr> [OTHER, KEYDOWN K_r, KEYDOWN K_other])
       = [[0, 0], [0, 0]]"
  using reset_yields_empty_grid [of K_r "\<lparr>SIZE = 2, RADIUS = 5, CELL_SIZE = 16, running = True,
                            grid = [[0, 1], [1, 1]]\<rparr>" "[OTHER]" "[KEYDOWN K_other]"]
  by (simp add: numeral_2_eq_2)

section \<open>Falling, sliding and resting\<close>

lemma destination_fall:
  "row + 1 < SIZE s \<Longrightarrow> grid s ! (row + 1) ! col = 0 \<Longrightarrow> destination s inp row col = (row + 1, col)"
  by (simp add: destination_def within_rows_def)

lemma destination_rest:
  assumes "SIZE s \<le> row + 1 \<or> grid s ! (row + 1) ! col \<noteq> 0"
    and "SIZE s \<le> row + 1 \<or> col = 0 \<or> grid s ! (row + 1) ! (col - 1) \<noteq> 0"
    and "SIZE s \<le> row + 1 \<or> SIZE s \<le> col + 1 \<or> grid s ! (row + 1) ! (col + 1) \<noteq> 0"
  shows "destination s inp row col = (row, col)"
proof (cases "lateral inp row col")
  case PickMinus
  have "nat (int col - 1) = col - 1" by simp
  then show ?thesis
    using assms PickMinus
    by (auto simp: destination_def within_rows_def within_cols_def Let_def)
next
  case PickPlus
  have "nat (int col + 1) = col + 1" by simp
  then show ?thesis
    using assms PickPlus
    by (auto simp: destination_def within_rows_def within_cols_def Let_def)
qed

text \<open>
  Claim C3. On a \<open>SIZE \<times> SIZE\<close> grid whose only sand cell is \<open>(r, c)\<close>, with \<open>r + 1\<close> in range
  and the cell \<open>(r + 1, c)\<close> empty, a tick without painting returns the grid that has sand at
  \<open>(r + 1, c)\<close> and nowhere else, whatever the lateral draws are: the straight fall is taken
  before any lateral move is tried. The witness is the \<open>SIZE = 3\<close> scenario with the single
  grain at \<open>(0, 1)\<close>.
\<close>

theorem single_grain_falls:
  assumes sq: "square (SIZE s) (grid s)"
    and r: "r + 1 < SIZE s" and c: "c < SIZE s"
    and sand: "grid s ! r ! c = 1"
    and only: "\<forall>i<SIZE s. \<forall>j<SIZE s. grid s ! i ! j = 1 \<longrightarrow> i = r \<and> j = c"
    and below: "grid s ! (r + 1) ! c = 0"
    and nopaint: "\<not> pressed inp"
  shows "update_grid m s inp = Inr (s\<lparr>grid := put (generate_grid s) (r + 1) c 1\<rparr>)
         \<and> (\<forall>i<SIZE s. \<forall>j<SIZE s.
               put (generate_grid s) (r + 1) c 1 ! i ! j = (if i = r + 1 \<and> j = c then 1 else 0))"
proof -
  have d: "destination s inp r c = (r + 1, c)"
    using r below by (rule destination_fall)
  have pt: "put (generate_grid s) (r + 1) c 1 ! i ! j = (if i = r + 1 \<and> j = c then 1 else 0)"
    if "i < SIZE s" "j < SIZE s" for i j
    using nth_put [OF generate_grid_square that] that by (simp add: nth_generate_grid)
  have "tick_grid s inp ! i ! j = put (generate_grid s) (r + 1) c 1 ! i ! j"
    if ij: "i < SIZE s" "j < SIZE s" for i j
  proof -
    have "(\<exists>r'<SIZE s. \<exists>c'<SIZE s. grid s ! r' ! c' = 1 \<and> destination s inp r' c' = (i, j))
          \<longleftrightarrow> i = r + 1 \<and> j = c"
      using only sand d r c by (metis Suc_eq_plus1 Suc_lessD prod.inject)
    then show ?thesis
      using nopaint pt [OF ij] by (simp add: nth_tick_grid ij)
  qed
  then have "tick_grid s inp = put (generate_grid s) (r + 1) c 1"
    by (intro grid_eqI [OF square_tick_grid square_put [OF generate_grid_square]])
  then show ?thesis
    using update_grid_tick_grid [OF sq, of inp m] nopaint pt by simp
qed

theorem single_grain_falls_witness:
  "square 3 [[0, 1, 0], [0, 0, 0], [0, 0, 0]]
   \<and> update_grid Wrapping
       \<lparr>SIZE = 3, RADIUS = 5, CELL_SIZE = 16, running = True,
          grid = [[0, 1, 0], [0, 0, 0], [0, 0, 0]]\<rparr>
       \<lparr>pressed = False, mouse_x = 0, mouse_y = 0, coin = (\<lambda>_ _. True),
          lateral = (\<lambda>_ _. PickMinus)\<rparr>
     = Inr \<lparr>SIZE = 3, RADIUS = 5, CELL_SIZE = 16, running = True,
          grid = [[0, 0, 0], [0, 1, 0], [0, 0, 0]]\<rparr>"
proof -
  let ?s = "\<lparr>SIZE = 3, RADIUS = 5, CELL_SIZE = 16, running = True,
          grid = [[0, 1, 0], [0, 0, 0], [0, 0, 0 :: int]]\<rparr>"
  let ?inp = "\<lparr>pressed = False, mouse_x = 0, mouse_y = 0, coin = (\<lambda>_ _. True),
          lateral = (\<lambda>_ _. PickMinus)\<rparr>"
  have sq: "square (SIZE ?s) (grid ?s)" by (simp add: square_def)
  have only: "\<forall>i<SIZE ?s. \<forall>j<SIZE ?s. grid ?s ! i ! j = 1 \<longrightarrow> i = 0 \<and> j = 1"
    by (simp add: numeral_3_eq_3 less_Suc_eq all_conj_distrib)
  have p: "put (generate_grid ?s) (Suc 0) (Suc 0) 1 = [[0, 0, 0], [0, 1, 0], [0, 0, 0]]"
    by (simp add: put_def generate_grid_def numeral_3_eq_3)
  show ?thesis
    using single_grain_falls [of ?s 0 1 ?inp Wrapping, OF sq _ _ _ only] sq
    by (simp add: p)
qed


text \<open>
  Claim C4. A sand cell \<open>(r, c)\<close> whose cell below and whose two diagonal cells below are each
  occupied or out of range has itself as destination and is sand after the tick, for every
  lateral draw. And the \<open>SIZE = 2\<close> grid with the bottom row full and the top row empty is
  returned unchanged by any number of ticks without painting.
\<close>

theorem blocked_grain_rests:
  "(square (SIZE s) (grid s) \<and> (pressed inp \<longrightarrow> CELL_SIZE s \<noteq> 0)
      \<and> r < SIZE s \<and> c < SIZE s \<and> grid s ! r ! c = 1
      \<and> (SIZE s \<le> r + 1 \<or> grid s ! (r + 1) ! c \<noteq> 0)
      \<and> (SIZE s \<le> r + 1 \<or> c = 0 \<or> grid s ! (r + 1) ! (c - 1) \<noteq> 0)
      \<and> (SIZE s \<le> r + 1 \<or> SIZE s \<le> c + 1 \<or> grid s ! (r + 1) ! (c + 1) \<noteq> 0)
     \<longrightarrow> destination s inp r c = (r, c)
         \<and> (\<exists>s'. update_grid m s inp = Inr s' \<and> grid s' ! r ! c = 1))
   \<and> (SIZE t = 2 \<and> grid t = [[0, 0], [1, 1]] \<and> (\<forall>i \<in> set inps. \<not> pressed i)
        \<longrightarrow> ticks m t inps = Inr t)"
proof (intro conjI impI)
  assume h: "square (SIZE s) (grid s) \<and> (pressed inp \<longrightarrow> CELL_SIZE s \<noteq> 0)
      \<and> r < SIZE s \<and> c < SIZE s \<and> grid s ! r ! c = 1
      \<and> (SIZE s \<le> r + 1 \<or> grid s ! (r + 1) ! c \<noteq> 0)
      \<and> (SIZE s \<le> r + 1 \<or> c = 0 \<or> grid s ! (r + 1) ! (c - 1) \<noteq> 0)
      \<and> (SIZE s \<le> r + 1 \<or> SIZE s \<le> c + 1 \<or> grid s ! (r + 1) ! (c + 1) \<noteq> 0)"
  then show d: "destination s inp r c = (r, c)"
    by (intro destination_rest) simp_all
  have "tick_grid s inp ! r ! c = 1"
    using h d by (auto simp: nth_tick_grid)
  then show "\<exists>s'. update_grid m s inp = Inr s' \<and> grid s' ! r ! c = 1"
    using update_grid_tick_grid [of s inp m] h by simp
next
  assume h: "SIZE t = 2 \<and> grid t = [[0, 0], [1, 1]] \<and> (\<forall>i \<in> set inps. \<not> pressed i)"
  have one: "update_grid m t i = Inr t" if np: "\<not> pressed i" for i
  proof -
    have sq: "square (SIZE t) (grid t)"
      using h by (simp add: square_def)
    have "tick_grid t i = [[0, 0], [1, 1]]"
      using h np
      by (simp add: tick_grid_def generate_grid_def settle_cell_def destination_def put_def
          within_rows_def within_cols_def upt_rec numeral_2_eq_2 Let_def)
    then have "tick_grid t i = grid t"
      using h by simp
    then show ?thesis
      using update_grid_tick_grid [OF sq, of i m] np by simp
  qed
  have "\<forall>i \<in> set inps. \<not> pressed i \<Longrightarrow> ticks m t inps = Inr t"
    by (induction inps) (simp_all add: one)
  then show "ticks m t inps = Inr t"
    using h by simp
qed


theorem blocked_grain_rests_witness:
  "square 2 [[0, 0], [1, 1]]
   \<and> destination \<lparr>SIZE = 2, RADIUS = 5, CELL_SIZE = 16, running = True, grid = [[0, 0], [1, 1]]\<rparr>
        \<lparr>pressed = False, mouse_x = 0, mouse_y = 0, coin = (\<lambda>_ _. True),
           lateral = (\<lambda>_ _. PickPlus)\<rparr> 1 0 = (1, 0)
   \<and> ticks Wrapping
        \<lparr>SIZE = 2, RADIUS = 5, CELL_SIZE = 16, running = True, grid = [[0, 0], [1, 1]]\<rparr>
        [\<lparr>pressed = False, mouse_x = 0, mouse_y = 0, coin = (\<lambda>_ _. True),
           lateral = (\<lambda>_ _. PickPlus)\<rparr>,
         \<lparr>pressed = False, mouse_x = 3, mouse_y = 4, coin = (\<lambda>_ _. False),
           lateral = (\<lambda>_ _. PickMinus)\<rparr>]
     = Inr \<lparr>SIZE = 2, RADIUS = 5, CELL_SIZE = 16, running = True, grid = [[0, 0], [1, 1]]\<rparr>"
proof -
  let ?s = "\<lparr>SIZE = 2, RADIUS = 5, CELL_SIZE = 16, running = True, grid = [[0, 0], [1, 1 :: int]]\<rparr>"
  let ?i1 = "\<lparr>pressed = False, mouse_x = 0, mouse_y = 0, coin = (\<lambda>_ _. True),
           lateral = (\<lambda>_ _. PickPlus)\<rparr>"
  let ?i2 = "\<lparr>pressed = False, mouse_x = 3, mouse_y = 4, coin = (\<lambda>_ _. False),
           lateral = (\<lambda>_ _. PickMinus)\<rparr>"
  have sq: "square 2 [[0, 0], [1, 1]]" by (simp add: square_def)
  show ?thesis
    using blocked_grain_rests [of ?s ?i1 1 0 Wrapping ?s "[?i1, ?i2]"] sq
    by simp
qed

text \<open>
  Claim C5. After a tick, a cell that is neither painted by \<^verbatim>\<open>handle_drag\<close> nor the destination
  of a sand cell of the current grid is empty, for every grid, pointer state and outcome of
  the draws. (With the button held the tick divides by \<open>CELL_SIZE\<close>, which is not zero.)
\<close>

theorem no_spontaneous_sand:
  assumes sq: "square (SIZE s) (grid s)" and cs: "pressed inp \<longrightarrow> CELL_SIZE s \<noteq> 0"
    and i: "i < SIZE s" and j: "j < SIZE s"
    and unpainted: "\<not> (pressed inp \<and> painted_at s inp i j)"
    and unreached:
      "\<forall>r<SIZE s. \<forall>c<SIZE s. grid s ! r ! c = 1 \<longrightarrow> destination s inp r c \<noteq> (i, j)"
  shows "\<exists>s'. update_grid m s inp = Inr s' \<and> grid s' ! i ! j = 0"
proof -
  have "tick_grid s inp ! i ! j = 0"
    using unpainted unreached by (auto simp: nth_tick_grid i j)
  then show ?thesis
    using update_grid_tick_grid [OF sq cs, of m] by simp
qed

theorem no_spontaneous_sand_witness:
  "square 3 [[1, 0, 0], [1, 0, 0], [0, 0, 0]]
   \<and> \<not> painted_at
         \<lparr>SIZE = 3, RADIUS = 5, CELL_SIZE = 16, running = True,
            grid = [[1, 0, 0], [1, 0, 0], [0, 0, 0]]\<rparr>
         \<lparr>pressed = True, mouse_x = 17, mouse_y = 35, coin = (\<lambda>_ _. True),
            lateral = (\<lambda>_ _. PickMinus)\<rparr> 1 1
   \<and> (\<exists>s'. update_grid Wrapping
         \<lparr>SIZE = 3, RADIUS = 5, CELL_SIZE = 16, running = True,
            grid = [[1, 0, 0], [1, 0, 0], [0, 0, 0]]\<rparr>
         \<lparr>pressed = True, mouse_x = 17, mouse_y = 35, coin = (\<lambda>_ _. True),
            lateral = (\<lambda>_ _. PickMinus)\<rparr> = Inr s' \<and> grid s' ! 1 ! 1 = 0)"
proof -
  let ?s = "\<lparr>SIZE = 3, RADIUS = 5, CELL_SIZE = 16, running = True,
            grid = [[1, 0, 0], [1, 0, 0], [0, 0, 0 :: int]]\<rparr>"
  let ?inp = "\<lparr>pressed = True, mouse_x = 17, mouse_y = 35, coin = (\<lambda>_ _. True),
            lateral = (\<lambda>_ _. PickMinus)\<rparr>"
  have sq: "square (SIZE ?s) (grid ?s)" by (simp add: square_def)
  have np: "\<not> painted_at ?s ?inp 1 1"
    by (simp add: painted_at_def)
  have nr: "\<forall>r<SIZE ?s. \<forall>c<SIZE ?s. grid ?s ! r ! c = 1 \<longrightarrow> destination ?s ?inp r c \<noteq> (1, 1)"
    by (simp add: numeral_3_eq_3 less_Suc_eq all_conj_distrib destination_def within_rows_def
        within_cols_def)
  show ?thesis
    using no_spontaneous_sand [of ?s ?inp 1 1 Wrapping, OF sq _ _ _ _ nr] sq np
    by simp
qed

section \<open>Colliding destinations and the one-sided slide\<close>

lemma destination_cases:
  "destination s inp r c = (r, c)
   \<or> (fst (destination s inp r c) = r + 1
       \<and> grid s ! (r + 1) ! snd (destination s inp r c) = 0
       \<and> (int (snd (destination s inp r c)) = int c
            \<or> int (snd (destination s inp r c)) = int c - 1
            \<or> int (snd (destination s inp r c)) = int c + 1))"
  by (cases "lateral inp r c")
     (auto simp: destination_def Let_def within_cols_def within_rows_def)

text \<open>
  Claim C1, as amended. Two distinct sand cells can be given the same destination. When
  they are, both lie in the same row, both move into the same cell of the row below, which
  is empty in the current grid, each is at most one column away from it, and at least one
  of them slides diagonally. So sand cells of different rows, and sand cells more than two
  columns apart, have distinct destinations, and the cell of a grain that rests is the
  destination of no other grain.
\<close>

theorem shared_destination:
  assumes sand1: "grid s ! r1 ! c1 = 1" and sand2: "grid s ! r2 ! c2 = 1"
    and distinct: "(r1, c1) \<noteq> (r2, c2)"
    and same: "destination s inp r1 c1 = destination s inp r2 c2"
  shows "r1 = r2
         \<and> fst (destination s inp r1 c1) = r1 + 1
         \<and> grid s ! (r1 + 1) ! snd (destination s inp r1 c1) = 0
         \<and> \<bar>int c1 - int (snd (destination s inp r1 c1))\<bar> \<le> 1
         \<and> \<bar>int c2 - int (snd (destination s inp r1 c1))\<bar> \<le> 1
         \<and> (snd (destination s inp r1 c1) \<noteq> c1 \<or> snd (destination s inp r1 c1) \<noteq> c2)"
proof -
  let ?d = "destination s inp r1 c1"
  have rest1: "?d \<noteq> (r1, c1)"
  proof
    assume e: "?d = (r1, c1)"
    with same have "destination s inp r2 c2 = (r1, c1)" by simp
    with destination_cases [of s inp r2 c2] distinct sand1 show False by auto
  qed
  have rest2: "destination s inp r2 c2 \<noteq> (r2, c2)"
  proof
    assume e: "destination s inp r2 c2 = (r2, c2)"
    with same have "?d = (r2, c2)" by simp
    with destination_cases [of s inp r1 c1] distinct sand2 show False by auto
  qed
  have m1: "fst ?d = r1 + 1 \<and> grid s ! (r1 + 1) ! snd ?d = 0
       \<and> (int (snd ?d) = int c1 \<or> int (snd ?d) = int c1 - 1 \<or> int (snd ?d) = int c1 + 1)"
    using destination_cases [of s inp r1 c1] rest1 by blast
  have m2: "fst ?d = r2 + 1
       \<and> (int (snd ?d) = int c2 \<or> int (snd ?d) = int c2 - 1 \<or> int (snd ?d) = int c2 + 1)"
    using destination_cases [of s inp r2 c2] rest2 same by auto
  have rows: "r1 = r2" using m1 m2 by simp
  have cols: "c1 \<noteq> c2" using distinct rows by simp
  show ?thesis
    using m1 m2 rows cols by auto
qed

theorem shared_destination_witness:
  "grid \<lparr>SIZE = 2, RADIUS = 5, CELL_SIZE = 16, running = True, grid = [[1, 1], [0, 1]]\<rparr> ! 0 ! 0 = 1
   \<and> grid \<lparr>SIZE = 2, RADIUS = 5, CELL_SIZE = 16, running = True, grid = [[1, 1], [0, 1]]\<rparr> ! 0 ! 1 = 1
   \<and> destination \<lparr>SIZE = 2, RADIUS = 5, CELL_SIZE = 16, running = True, grid = [[1, 1], [0, 1]]\<rparr>
        \<lparr>pressed = False, mouse_x = 0, mouse_y = 0, coin = (\<lambda>_ _. True),
           lateral = (\<lambda>_ _. PickMinus)\<rparr> 0 0
      = destination \<lparr>SIZE = 2, RADIUS = 5, CELL_SIZE = 16, running = True, grid = [[1, 1], [0, 1]]\<rparr>
        \<lparr>pressed = False, mouse_x = 0, mouse_y = 0, coin = (\<lambda>_ _. True),
           lateral = (\<lambda>_ _. PickMinus)\<rparr> 0 1
   \<and> fst (destination \<lparr>SIZE = 2, RADIUS = 5, CELL_SIZE = 16, running = True, grid = [[1, 1], [0, 1]]\<rparr>
        \<lparr>pressed = False, mouse_x = 0, mouse_y = 0, coin = (\<lambda>_ _. True),
           lateral = (\<lambda>_ _. PickMinus)\<rparr> 0 0) = 1"
proof -
  let ?s = "\<lparr>SIZE = 2, RADIUS = 5, CELL_SIZE = 16, running = True, grid = [[1, 1], [0, 1 :: int]]\<rparr>"
  let ?inp = "\<lparr>pressed = False, mouse_x = 0, mouse_y = 0, coin = (\<lambda>_ _. True),
           lateral = (\<lambda>_ _. PickMinus)\<rparr>"
  have same: "destination ?s ?inp 0 0 = destination ?s ?inp 0 1"
    by (simp add: destination_def within_rows_def within_cols_def)
  show ?thesis
    using shared_destination [of ?s 0 0 0 1 ?inp, OF _ _ _ same] same
    by simp
qed

text \<open>
  Claim C1 as stated fails: on the \<open>SIZE = 2\<close> grid with sand at \<open>(0, 0)\<close>, \<open>(0, 1)\<close> and \<open>(1, 1)\<close>,
  when the draw is \<open>-1\<close>, the grain at \<open>(0, 0)\<close> falls to \<open>(1, 0)\<close> and the grain at \<open>(0, 1)\<close>
  slides to the same cell; the next grid holds two grains where the current one holds three.
\<close>

theorem destinations_collide_counterexample:
  "grid \<lparr>SIZE = 2, RADIUS = 5, CELL_SIZE = 16, running = True, grid = [[1, 1], [0, 1]]\<rparr> ! 0 ! 0 = 1
   \<and> grid \<lparr>SIZE = 2, RADIUS = 5, CELL_SIZE = 16, running = True, grid = [[1, 1], [0, 1]]\<rparr> ! 0 ! 1 = 1
   \<and> destination \<lparr>SIZE = 2, RADIUS = 5, CELL_SIZE = 16, running = True, grid = [[1, 1], [0, 1]]\<rparr>
        \<lparr>pressed = False, mouse_x = 0, mouse_y = 0, coin = (\<lambda>_ _. True),
           lateral = (\<lambda>_ _. PickMinus)\<rparr> 0 0 = (1, 0)
   \<and> destination \<lparr>SIZE = 2, RADIUS = 5, CELL_SIZE = 16, running = True, grid = [[1, 1], [0, 1]]\<rparr>
        \<lparr>pressed = False, mouse_x = 0, mouse_y = 0, coin = (\<lambda>_ _. True),
           lateral = (\<lambda>_ _. PickMinus)\<rparr> 0 1 = (1, 0)
   \<and> update_grid Wrapping
        \<lparr>SIZE = 2, RADIUS = 5, CELL_SIZE = 16, running = True, grid = [[1, 1], [0, 1]]\<rparr>
        \<lparr>pressed = False, mouse_x = 0, mouse_y = 0, coin = (\<lambda>_ _. True),
           lateral = (\<lambda>_ _. PickMinus)\<rparr>
      = Inr \<lparr>SIZE = 2, RADIUS = 5, CELL_SIZE = 16, running = True, grid = [[0, 0], [1, 1]]\<rparr>
   \<and> sand_count [[1, 1], [0, 1]] = 3 \<and> sand_count [[0, 0], [1, 1]] = 2"
  by code_simp

lemma sliding_tick_grid:
  assumes sz: "SIZE s = 3" and g: "grid s = [[1, 0, 0], [1, 0, 0], [0, 0, 0]]"
    and np: "\<not> pressed inp"
  shows "tick_grid s inp =
           (if lateral inp 0 0 = PickPlus then [[0, 0, 0], [0, 1, 0], [1, 0, 0]]
            else [[1, 0, 0], [0, 0, 0], [1, 0, 0]])"
  using sz g np
  by (cases "lateral inp 0 0")
     (simp_all add: tick_grid_def generate_grid_def settle_cell_def destination_def put_def
        within_rows_def within_cols_def upt_rec numeral_3_eq_3 Let_def)

text \<open>
  Claim C2, as amended. On the \<open>SIZE = 3\<close> grid with sand exactly at \<open>(0, 0)\<close> and \<open>(1, 0)\<close>, a
  tick without painting moves the grain at \<open>(0, 0)\<close> to \<open>(1, 1)\<close> when its lateral draw is \<open>+1\<close>;
  when the draw is \<open>-1\<close> the candidate column is out of range and the grain stays at
  \<open>(0, 0)\<close>. In both cases the grain at \<open>(1, 0)\<close> falls to \<open>(2, 0)\<close>.
\<close>

theorem blocked_grain_slides_right:
  assumes sz: "SIZE s = 3" and g: "grid s = [[1, 0, 0], [1, 0, 0], [0, 0, 0]]"
    and np: "\<not> pressed inp"
  shows "destination s inp 0 0 = (if lateral inp 0 0 = PickPlus then (1, 1) else (0, 0))
         \<and> update_grid m s inp =
             Inr (s\<lparr>grid := if lateral inp 0 0 = PickPlus then [[0, 0, 0], [0, 1, 0], [1, 0, 0]]
                            else [[1, 0, 0], [0, 0, 0], [1, 0, 0]]\<rparr>)"
proof -
  have sq: "square (SIZE s) (grid s)"
    using sz g by (simp add: square_def)
  have d: "destination s inp 0 0 = (if lateral inp 0 0 = PickPlus then (1, 1) else (0, 0))"
    using sz g
    by (cases "lateral inp 0 0") (simp_all add: destination_def within_rows_def within_cols_def)
  show ?thesis
    using update_grid_tick_grid [OF sq, of inp m] np d sliding_tick_grid [OF sz g np]
    by simp
qed

theorem blocked_grain_slides_right_witness:
  "update_grid Wrapping
     \<lparr>SIZE = 3, RADIUS = 5, CELL_SIZE = 16, running = True,
        grid = [[1, 0, 0], [1, 0, 0], [0, 0, 0]]\<rparr>
     \<lparr>pressed = False, mouse_x = 0, mouse_y = 0, coin = (\<lambda>_ _. True),
        lateral = (\<lambda>_ _. PickPlus)\<rparr>
   = Inr \<lparr>SIZE = 3, RADIUS = 5, CELL_SIZE = 16, running = True,
        grid = [[0, 0, 0], [0, 1, 0], [1, 0, 0]]\<rparr>"
  using blocked_grain_slides_right [of
      "\<lparr>SIZE = 3, RADIUS = 5, CELL_SIZE = 16, running = True,
        grid = [[1, 0, 0], [1, 0, 0], [0, 0, 0]]\<rparr>"
      "\<lparr>pressed = False, mouse_x = 0, mouse_y = 0, coin = (\<lambda>_ _. True),
        lateral = (\<lambda>_ _. PickPlus)\<rparr>" Wrapping]
  by simp

text \<open>
  Claim C2 as stated fails for the draw \<open>-1\<close>: the grain at \<open>(0, 0)\<close> rests and \<open>(1, 1)\<close> stays
  empty.
\<close>

theorem blocked_grain_slides_counterexample:
  "destination
     \<lparr>SIZE = 3, RADIUS = 5, CELL_SIZE = 16, running = True,
        grid = [[1, 0, 0], [1, 0, 0], [0, 0, 0]]\<rparr>
     \<lparr>pressed = False, mouse_x = 0, mouse_y = 0, coin = (\<lambda>_ _. True),
        lateral = (\<lambda>_ _. PickMinus)\<rparr> 0 0 = (0, 0)
   \<and> update_grid Wrapping
     \<lparr>SIZE = 3, RADIUS = 5, CELL_SIZE = 16, running = True,
        grid = [[1, 0, 0], [1, 0, 0], [0, 0, 0]]\<rparr>
     \<lparr>pressed = False, mouse_x = 0, mouse_y = 0, coin = (\<lambda>_ _. True),
        lateral = (\<lambda>_ _. PickMinus)\<rparr>
   = Inr \<lparr>SIZE = 3, RADIUS = 5, CELL_SIZE = 16, running = True,
        grid = [[1, 0, 0], [0, 0, 0], [1, 0, 0]]\<rparr>"
  by code_simp

section \<open>Sand is never created\<close>

lemma length_filter_concat:
  "length (filter P (concat xss)) = (\<Sum>i = 0..<length xss. length (filter P (xss ! i)))"
proof -
  have "length (filter P (concat xss)) = sum_list (map (\<lambda>xs. length (filter P xs)) xss)"
    by (induction xss) simp_all
  also have "\<dots> = (\<Sum>i = 0..<length xss. length (filter P (xss ! i)))"
    by (simp add: sum_list_sum_nth)
  finally show ?thesis .
qed

lemma sand_count_card:
  assumes sq: "square n g"
  shows "sand_count g = card (sand_cells n g)"
proof -
  have len: "length g = n" using sq by (rule square_length)
  have row: "length (filter (\<lambda>v. v = 1) (g ! i)) = card {j. j < n \<and> g ! i ! j = 1}"
    if "i < n" for i
    using square_nth [OF sq that] by (simp add: length_filter_conv_card)
  have "sand_cells n g = (SIGMA i:{0..<n}. {j. j < n \<and> g ! i ! j = 1})"
    by (auto simp: sand_cells_def)
  then have "card (sand_cells n g) = (\<Sum>i = 0..<n. card {j. j < n \<and> g ! i ! j = 1})"
    by simp
  also have "\<dots> = (\<Sum>i = 0..<n. length (filter (\<lambda>v. v = 1) (g ! i)))"
    by (rule sum.cong) (simp_all add: row)
  finally show ?thesis
    by (simp add: sand_count_def length_filter_concat len)
qed

lemma finite_sand_cells: "finite (sand_cells n g)"
proof (rule finite_subset)
  show "sand_cells n g \<subseteq> {0..<n} \<times> {0..<n}" by (auto simp: sand_cells_def)
qed simp

lemma sand_cells_tick_grid:
  assumes np: "\<not> pressed inp"
  shows "sand_cells (SIZE s) (tick_grid s inp)
           \<subseteq> (\<lambda>rc. destination s inp (fst rc) (snd rc)) ` sand_cells (SIZE s) (grid s)"
proof
  fix ij assume a: "ij \<in> sand_cells (SIZE s) (tick_grid s inp)"
  obtain i j where ij: "ij = (i, j)" by (cases ij)
  from a ij have b: "i < SIZE s" "j < SIZE s" "tick_grid s inp ! i ! j = 1"
    by (simp_all add: sand_cells_def)
  then have "\<exists>r<SIZE s. \<exists>c<SIZE s. grid s ! r ! c = 1 \<and> destination s inp r c = (i, j)"
    using np by (auto simp: nth_tick_grid split: if_splits)
  then obtain r c where "r < SIZE s" "c < SIZE s" "grid s ! r ! c = 1"
    "destination s inp r c = (i, j)" by blast
  then have "(r, c) \<in> sand_cells (SIZE s) (grid s)
             \<and> ij = destination s inp (fst (r, c)) (snd (r, c))"
    by (simp add: sand_cells_def ij)
  then show "ij \<in> (\<lambda>rc. destination s inp (fst rc) (snd rc)) ` sand_cells (SIZE s) (grid s)"
    by blast
qed

lemma sand_count_tick_grid:
  assumes sq: "square (SIZE s) (grid s)" and np: "\<not> pressed inp"
  shows "sand_count (tick_grid s inp) \<le> sand_count (grid s)"
proof -
  let ?f = "\<lambda>rc. destination s inp (fst rc) (snd rc)"
  have "card (sand_cells (SIZE s) (tick_grid s inp)) \<le> card (?f ` sand_cells (SIZE s) (grid s))"
    by (rule card_mono) (simp_all add: finite_sand_cells sand_cells_tick_grid np)
  also have "\<dots> \<le> card (sand_cells (SIZE s) (grid s))"
    by (rule card_image_le) (rule finite_sand_cells)
  finally show ?thesis
    by (simp add: sand_count_card [OF sq] sand_count_card [OF square_tick_grid])
qed

lemma binary_tick_grid: "binary (tick_grid s inp)"
proof -
  have len: "length (tick_grid s inp) = SIZE s"
    using square_tick_grid by (rule square_length)
  have "tick_grid s inp ! i ! j = 0 \<or> tick_grid s inp ! i ! j = 1"
    if "i < SIZE s" "j < length (tick_grid s inp ! i)" for i j
    using that square_nth [OF square_tick_grid that(1), of inp] by (simp add: nth_tick_grid)
  then show ?thesis
    by (simp add: binary_def list_all_length len)
qed

lemma handle_event_grid:
  "grid (handle_event s e) = grid s \<or> grid (handle_event s e) = generate_grid s"
  by (cases e) auto

text \<open>
  Claim C10. A tick without painting on a \<open>SIZE \<times> SIZE\<close> grid returns a grid with at most as
  many sand cells as before. Every tick that returns, painting or not, returns a
  \<open>SIZE \<times> SIZE\<close> grid whose cells are all 0 or 1 and leaves \<open>SIZE\<close> unchanged; the grid
  \<^verbatim>\<open>generate_grid\<close> builds is such a grid; and handling an event (a reset among them) keeps a
  grid of that shape and those values so.
\<close>

theorem tick_never_adds_sand:
  "(square (SIZE s) (grid s) \<and> \<not> pressed inp \<longrightarrow>
      (\<exists>s'. update_grid m s inp = Inr s' \<and> sand_count (grid s') \<le> sand_count (grid s)))
   \<and> (square (SIZE s) (grid s) \<and> (pressed inp \<longrightarrow> CELL_SIZE s \<noteq> 0) \<longrightarrow>
      (\<exists>s'. update_grid m s inp = Inr s' \<and> SIZE s' = SIZE s
            \<and> square (SIZE s') (grid s') \<and> binary (grid s')))
   \<and> square (SIZE s) (generate_grid s) \<and> binary (generate_grid s)
   \<and> (square (SIZE s) (grid s) \<and> binary (grid s) \<longrightarrow>
        SIZE (handle_event s e) = SIZE s
        \<and> square (SIZE (handle_event s e)) (grid (handle_event s e))
        \<and> binary (grid (handle_event s e)))"
proof (intro conjI impI)
  assume h: "square (SIZE s) (grid s) \<and> \<not> pressed inp"
  then have "update_grid m s inp = Inr (s\<lparr>grid := tick_grid s inp\<rparr>)"
    by (simp add: update_grid_tick_grid)
  then show "\<exists>s'. update_grid m s inp = Inr s' \<and> sand_count (grid s') \<le> sand_count (grid s)"
    using h by (simp add: sand_count_tick_grid)
next
  assume h: "square (SIZE s) (grid s) \<and> (pressed inp \<longrightarrow> CELL_SIZE s \<noteq> 0)"
  then have "update_grid m s inp = Inr (s\<lparr>grid := tick_grid s inp\<rparr>)"
    by (simp add: update_grid_tick_grid)
  then show "\<exists>s'. update_grid m s inp = Inr s' \<and> SIZE s' = SIZE s
            \<and> square (SIZE s') (grid s') \<and> binary (grid s')"
    by (simp add: square_tick_grid binary_tick_grid)
next
  show "square (SIZE s) (generate_grid s)" by (rule generate_grid_square)
  show "binary (generate_grid s)" by (rule generate_grid_binary)
next
  assume h: "square (SIZE s) (grid s) \<and> binary (grid s)"
  show "SIZE (handle_event s e) = SIZE s" by (rule handle_event_SIZE)
  show "square (SIZE (handle_event s e)) (grid (handle_event s e))"
    using handle_event_grid [of s e] h generate_grid_square [of s]
    by (auto simp: handle_event_SIZE)
  show "binary (grid (handle_event s e))"
    using handle_event_grid [of s e] h generate_grid_binary [of s] by auto
qed

theorem tick_never_adds_sand_witness:
  "square 2 [[1, 1], [0, 1]] \<and> binary [[1, 1], [0, 1]]
   \<and> sand_count [[1, 1], [0, 1]] = 3
   \<and> (\<exists>s'. update_grid Wrapping
         \<lparr>SIZE = 2, RADIUS = 5, CELL_SIZE = 16, running = True, grid = [[1, 1], [0, 1]]\<rparr>
         \<lparr>pressed = False, mouse_x = 0, mouse_y = 0, coin = (\<lambda>_ _. True),
            lateral = (\<lambda>_ _. PickMinus)\<rparr> = Inr s' \<and> sand_count (grid s') \<le> 3)
   \<and> binary (grid (handle_event
         \<lparr>SIZE = 2, RADIUS = 5, CELL_SIZE = 16, running = True, grid = [[1, 1], [0, 1]]\<rparr>
         (KEYDOWN K_c)))"
proof -
  let ?s = "\<lparr>SIZE = 2, RADIUS = 5, CELL_SIZE = 16, running = True, grid = [[1, 1], [0, 1 :: int]]\<rparr>"
  let ?inp = "\<lparr>pressed = False, mouse_x = 0, mouse_y = 0, coin = (\<lambda>_ _. True),
            lateral = (\<lambda>_ _. PickMinus)\<rparr>"
  have sq: "square 2 [[1, 1], [0, 1]]" by (simp add: square_def)
  have bi: "binary [[1, 1], [0, 1]]" by (simp add: binary_def)
  have ct: "sand_count [[1, 1], [0, 1]] = 3" by (simp add: sand_count_def)
  show ?thesis
    using tick_never_adds_sand [of ?s ?inp Wrapping "KEYDOWN K_c"] sq bi ct
    by simp
qed

section \<open>Painting and index ranges\<close>

lemma foldE_skip:
  "(\<And>x t. x \<in> set xs \<Longrightarrow> f x t = Inr t) \<Longrightarrow> foldE f xs t = Inr t"
  by (induction xs) simp_all

lemma paint_candidate_skip:
  "\<not> (within_cols s (myc + int column) \<and> within_rows s (mxr + int row)) \<Longrightarrow>
   paint_candidate m s inp mxr myc (row, column) next_grid = Inr next_grid"
  by (auto simp: paint_candidate_def Let_def)

lemma nth_handle_drag:
  assumes nx: "square (SIZE s) next_grid" and i: "i < SIZE s" and j: "j < SIZE s"
  shows "fold (paint_cell s inp)
           (List.product [0..<nat (RADIUS s div 2)] [0..<nat (RADIUS s div 2)]) next_grid ! i ! j
         = (if painted_at s inp i j then 1 else next_grid ! i ! j)"
  using nth_fold_paint [OF nx i j, where inp = inp
        and cands = "List.product [0..<nat (RADIUS s div 2)] [0..<nat (RADIUS s div 2)]"]
  by (auto simp: painted_at_def)

text \<open>
  Claim C9. A brush candidate whose row or column index is outside \<open>[0, SIZE - 1]\<close> is
  skipped: the loop body returns the grid it was given, raising nothing. When every
  candidate of the brush is out of range, \<^verbatim>\<open>handle_drag\<close> returns the grid unchanged. In
  general the only cells \<^verbatim>\<open>handle_drag\<close> changes are the in-range candidates whose draw
  succeeded, so no out-of-range candidate is clamped onto a cell. (\<^verbatim>\<open>handle_drag\<close> divides by
  \<open>CELL_SIZE\<close>, which is not zero.)
\<close>

theorem out_of_range_paint_skipped:
  "(\<not> (within_cols s (myc + int column) \<and> within_rows s (mxr + int row)) \<longrightarrow>
      paint_candidate m s inp mxr myc (row, column) next_grid = Inr next_grid)
   \<and> (CELL_SIZE s \<noteq> 0
        \<and> (\<forall>row<nat (RADIUS s div 2). \<forall>column<nat (RADIUS s div 2).
              \<not> (within_cols s (mouse_y inp div CELL_SIZE s + int column)
                 \<and> within_rows s (mouse_x inp div CELL_SIZE s + int row))) \<longrightarrow>
        handle_drag m s inp next_grid = Inr next_grid)
   \<and> (CELL_SIZE s \<noteq> 0 \<and> square (SIZE s) next_grid \<longrightarrow>
        (\<exists>g'. handle_drag m s inp next_grid = Inr g' \<and> square (SIZE s) g'
           \<and> (\<forall>i<SIZE s. \<forall>j<SIZE s.
                 g' ! i ! j = (if painted_at s inp i j then 1 else next_grid ! i ! j))))"
proof (intro conjI impI)
  assume "\<not> (within_cols s (myc + int column) \<and> within_rows s (mxr + int row))"
  then show "paint_candidate m s inp mxr myc (row, column) next_grid = Inr next_grid"
    by (rule paint_candidate_skip)
next
  assume h: "CELL_SIZE s \<noteq> 0
        \<and> (\<forall>row<nat (RADIUS s div 2). \<forall>column<nat (RADIUS s div 2).
              \<not> (within_cols s (mouse_y inp div CELL_SIZE s + int column)
                 \<and> within_rows s (mouse_x inp div CELL_SIZE s + int row)))"
  have "foldE (paint_candidate m s inp (mouse_x inp div CELL_SIZE s) (mouse_y inp div CELL_SIZE s))
          (List.product [0..<nat (RADIUS s div 2)] [0..<nat (RADIUS s div 2)]) next_grid
        = Inr next_grid"
  proof (rule foldE_skip)
    fix x :: "nat \<times> nat" and t
    assume "x \<in> set (List.product [0..<nat (RADIUS s div 2)] [0..<nat (RADIUS s div 2)])"
    then have "fst x < nat (RADIUS s div 2)" "snd x < nat (RADIUS s div 2)"
      by auto
    then have "\<not> (within_cols s (mouse_y inp div CELL_SIZE s + int (snd x))
                 \<and> within_rows s (mouse_x inp div CELL_SIZE s + int (fst x)))"
      using h by blast
    then show "paint_candidate m s inp (mouse_x inp div CELL_SIZE s)
                 (mouse_y inp div CELL_SIZE s) x t = Inr t"
      using paint_candidate_skip [of s "mouse_y inp div CELL_SIZE s" "snd x"
          "mouse_x inp div CELL_SIZE s" "fst x" m inp t]
      by simp
  qed
  then show "handle_drag m s inp next_grid = Inr next_grid"
    using h by (simp add: handle_drag_def Let_def)
next
  assume h: "CELL_SIZE s \<noteq> 0 \<and> square (SIZE s) next_grid"
  let ?g = "fold (paint_cell s inp)
           (List.product [0..<nat (RADIUS s div 2)] [0..<nat (RADIUS s div 2)]) next_grid"
  have "handle_drag m s inp next_grid = Inr ?g"
    using h by (simp add: handle_drag_paint)
  moreover have "square (SIZE s) ?g"
    using h by (simp add: square_fold_paint)
  moreover have "\<forall>i<SIZE s. \<forall>j<SIZE s.
                 ?g ! i ! j = (if painted_at s inp i j then 1 else next_grid ! i ! j)"
    using h by (simp add: nth_handle_drag)
  ultimately show "\<exists>g'. handle_drag m s inp next_grid = Inr g' \<and> square (SIZE s) g'
           \<and> (\<forall>i<SIZE s. \<forall>j<SIZE s.
                 g' ! i ! j = (if painted_at s inp i j then 1 else next_grid ! i ! j))"
    by blast
qed

theorem out_of_range_paint_skipped_witness:
  "\<not> within_cols \<lparr>SIZE = 3, RADIUS = 5, CELL_SIZE = 16, running = True,
                    grid = [[0, 0, 0], [0, 0, 0], [0, 1, 0]]\<rparr> (900 div 16 + 1)
   \<and> paint_candidate Wrapping
       \<lparr>SIZE = 3, RADIUS = 5, CELL_SIZE = 16, running = True,
          grid = [[0, 0, 0], [0, 0, 0], [0, 1, 0]]\<rparr>
       \<lparr>pressed = True, mouse_x = - 20, mouse_y = 900, coin = (\<lambda>_ _. True),
          lateral = (\<lambda>_ _. PickMinus)\<rparr> (- 20 div 16) (900 div 16) (0, 1)
       [[0, 0, 0], [0, 0, 0], [0, 1, 0]] = Inr [[0, 0, 0], [0, 0, 0], [0, 1, 0]]
   \<and> handle_drag Wrapping
       \<lparr>SIZE = 3, RADIUS = 5, CELL_SIZE = 16, running = True,
          grid = [[0, 0, 0], [0, 0, 0], [0, 1, 0]]\<rparr>
       \<lparr>pressed = True, mouse_x = - 20, mouse_y = 900, coin = (\<lambda>_ _. True),
          lateral = (\<lambda>_ _. PickMinus)\<rparr>
       [[0, 0, 0], [0, 0, 0], [0, 1, 0]] = Inr [[0, 0, 0], [0, 0, 0], [0, 1, 0]]"
proof -
  let ?s = "\<lparr>SIZE = 3, RADIUS = 5, CELL_SIZE = 16, running = True,
          grid = [[0, 0, 0], [0, 0, 0], [0, 1, 0 :: int]]\<rparr>"
  let ?inp = "\<lparr>pressed = True, mouse_x = - 20, mouse_y = 900, coin = (\<lambda>_ _. True),
          lateral = (\<lambda>_ _. PickMinus)\<rparr>"
  have out: "\<not> within_cols ?s (900 div 16 + 1)"
    by (simp add: within_cols_def)
  have all_out: "\<forall>row<nat (RADIUS ?s div 2). \<forall>column<nat (RADIUS ?s div 2).
              \<not> (within_cols ?s (mouse_y ?inp div CELL_SIZE ?s + int column)
                 \<and> within_rows ?s (mouse_x ?inp div CELL_SIZE ?s + int row))"
    by (simp add: within_cols_def)
  show ?thesis
    using out_of_range_paint_skipped [of ?s "900 div 16" 1 "- 20 div 16" 0 Wrapping ?inp
        "[[0, 0, 0], [0, 0, 0], [0, 1, 0]]"] out all_out
    by simp
qed

text \<open>
  Claim C6. Under \<open>Strict\<close> indexing an access succeeds only for an index in \<open>[0, len - 1]\<close>
  and its failure ends the method with IndexError. On a \<open>SIZE \<times> SIZE\<close> grid neither
  \<^verbatim>\<open>update_grid\<close> nor \<^verbatim>\<open>handle_drag\<close> ends with IndexError under \<open>Strict\<close>, and both return
  under Python's indexing exactly what they return under \<open>Strict\<close>: every index they use is
  within \<open>[0, SIZE - 1]\<close>, so no negative index ever wraps around. Unless the button is held
  while \<open>CELL_SIZE\<close> is zero, the tick returns a grid.
\<close>

theorem grid_accesses_in_range:
  "(resolve Strict n i = Inr k \<longrightarrow> 0 \<le> i \<and> i \<le> int n - 1 \<and> k = nat i)
   \<and> (square (SIZE s) (grid s) \<longrightarrow>
        update_grid Strict s inp \<noteq> Inl IndexError
        \<and> update_grid Wrapping s inp = update_grid Strict s inp
        \<and> ((pressed inp \<longrightarrow> CELL_SIZE s \<noteq> 0) \<longrightarrow>
             update_grid Strict s inp = Inr (s\<lparr>grid := tick_grid s inp\<rparr>)))
   \<and> (square (SIZE s) next_grid \<longrightarrow>
        handle_drag Strict s inp next_grid \<noteq> Inl IndexError
        \<and> handle_drag Wrapping s inp next_grid = handle_drag Strict s inp next_grid
        \<and> (CELL_SIZE s \<noteq> 0 \<longrightarrow> (\<exists>g'. handle_drag Strict s inp next_grid = Inr g')))"
proof (intro conjI impI)
  assume "resolve Strict n i = Inr k"
  then have "0 \<le> i \<and> i < int n \<and> k = nat i" by (rule resolve_Strict)
  then show "0 \<le> i" "i \<le> int n - 1" "k = nat i" by simp_all
next
  assume sq: "square (SIZE s) (grid s)"
  have u: "update_grid m s inp =
             (if pressed inp \<and> CELL_SIZE s = 0 then Inl ZeroDivisionError
              else Inr (s\<lparr>grid := tick_grid s inp\<rparr>))" for m
  proof (cases "pressed inp \<and> CELL_SIZE s = 0")
    case True
    then show ?thesis by (simp add: update_grid_def handle_drag_def)
  next
    case False
    then show ?thesis using update_grid_tick_grid [OF sq, of inp m] by auto
  qed
  show "update_grid Strict s inp \<noteq> Inl IndexError" by (simp add: u)
  show "update_grid Wrapping s inp = update_grid Strict s inp" by (simp add: u)
  show "update_grid Strict s inp = Inr (s\<lparr>grid := tick_grid s inp\<rparr>)"
    if "pressed inp \<longrightarrow> CELL_SIZE s \<noteq> 0"
    using that by (auto simp: u)
next
  assume nx: "square (SIZE s) next_grid"
  have h: "handle_drag m s inp next_grid =
             (if CELL_SIZE s = 0 then Inl ZeroDivisionError
              else Inr (fold (paint_cell s inp)
                  (List.product [0..<nat (RADIUS s div 2)] [0..<nat (RADIUS s div 2)]) next_grid))"
    for m
  proof (cases "CELL_SIZE s = 0")
    case True
    then show ?thesis by (simp add: handle_drag_def)
  next
    case False
    then show ?thesis using handle_drag_paint [OF nx, of m inp] by simp
  qed
  show "handle_drag Strict s inp next_grid \<noteq> Inl IndexError" by (simp add: h)
  show "handle_drag Wrapping s inp next_grid = handle_drag Strict s inp next_grid"
    by (simp add: h)
  show "\<exists>g'. handle_drag Strict s inp next_grid = Inr g'" if "CELL_SIZE s \<noteq> 0"
    using that by (simp add: h)
qed

theorem grid_accesses_in_range_witness:
  "square 3 [[1, 0, 0], [1, 0, 0], [0, 0, 1]]
   \<and> resolve Strict 3 2 = Inr 2
   \<and> update_grid Strict
       \<lparr>SIZE = 3, RADIUS = 5, CELL_SIZE = 16, running = True,
          grid = [[1, 0, 0], [1, 0, 0], [0, 0, 1]]\<rparr>
       \<lparr>pressed = True, mouse_x = - 5, mouse_y = 35, coin = (\<lambda>_ _. True),
          lateral = (\<lambda>_ _. PickMinus)\<rparr>
     = Inr \<lparr>SIZE = 3, RADIUS = 5, CELL_SIZE = 16, running = True,
          grid = [[1, 0, 0], [0, 0, 0], [1, 0, 1]]\<rparr>
   \<and> update_grid Wrapping
       \<lparr>SIZE = 3, RADIUS = 5, CELL_SIZE = 16, running = True,
          grid = [[1, 0, 0], [1, 0, 0], [0, 0, 1]]\<rparr>
       \<lparr>pressed = True, mouse_x = - 5, mouse_y = 35, coin = (\<lambda>_ _. True),
          lateral = (\<lambda>_ _. PickMinus)\<rparr>
     = Inr \<lparr>SIZE = 3, RADIUS = 5, CELL_SIZE = 16, running = True,
          grid = [[1, 0, 0], [0, 0, 0], [1, 0, 1]]\<rparr>"
proof -
  let ?s = "\<lparr>SIZE = 3, RADIUS = 5, CELL_SIZE = 16, running = True,
          grid = [[1, 0, 0], [1, 0, 0], [0, 0, 1 :: int]]\<rparr>"
  let ?inp = "\<lparr>pressed = True, mouse_x = - 5, mouse_y = 35, coin = (\<lambda>_ _. True),
          lateral = (\<lambda>_ _. PickMinus)\<rparr>"
  have sq: "square 3 [[1, 0, 0], [1, 0, 0], [0, 0, 1]]" by (simp add: square_def)
  have r: "resolve Strict 3 2 = Inr 2" by (simp add: resolve_def)
  have t: "tick_grid ?s ?inp = [[1, 0, 0], [0, 0, 0], [1, 0, 1]]" by code_simp
  show ?thesis
    using grid_accesses_in_range [of 3 2 2 ?s ?inp "grid ?s"] sq r t
    by simp
qed

section \<open>The catch-up loop on floats\<close>
















end
